theory Spec2Isabelle
  imports Main "HOL-Library.Product_Lexorder"
begin

section \<open>simlog: a discrete-event kernel with publish/subscribe dispatch\<close>

text \<open>
  A shallow embedding of \<^verbatim>\<open>simlog/events/events.py\<close>, \<^verbatim>\<open>simlog/engine/base.py\<close>,
  \<^verbatim>\<open>simlog/engine/component_manager.py\<close> and \<^verbatim>\<open>simlog/engine/environment.py\<close>.

  Python objects that are shared and mutated (components, events) live in explicit
  stores inside the environment record: a component is named by a reference, an event by
  the sequence number it received when it was scheduled. Exceptions are values of the
  type \<open>error\<close>; a function that may raise returns \<open>error + 'a\<close>.
\<close>

subsection \<open>Values\<close>

type_synonym uuid = nat
type_synonym ref = nat

text \<open>The members of the two \<^verbatim>\<open>EventTopic\<close> enumerations of the repository.\<close>

datatype EventTopic =
    DUMMY_EVENT
  | STATE_CHANGE
  | PATIENT_JOINED_QUEUE
  | PATIENT_ARRIVED_AT_DESK
  | PATIENT_DONE_BEING_SERVED

text \<open>\<^verbatim>\<open>member.value.value\<close>: the string of the member's \<^verbatim>\<open>EventTopicValue\<close>.\<close>

fun topic_value :: "EventTopic \<Rightarrow> string" where
  "topic_value DUMMY_EVENT = ''DUMMY_EVENT''"
| "topic_value STATE_CHANGE = ''STATE_CHANGE''"
| "topic_value PATIENT_JOINED_QUEUE = ''PATIENT_JOINED_QUEUE''"
| "topic_value PATIENT_ARRIVED_AT_DESK = ''PATIENT_ARRIVED_AT_DESK''"
| "topic_value PATIENT_DONE_BEING_SERVED = ''PATIENT_DONE_BEING_SERVED''"

text \<open>
  A Python \<^verbatim>\<open>str\<close> object: its identity and its characters. Two string objects can
  hold the same characters; \<^verbatim>\<open>is\<close> compares the identities, \<^verbatim>\<open>==\<close> the characters.
\<close>

datatype pystr = PyString (str_id: nat) (str_chars: string)

text \<open>A component state is \<^verbatim>\<open>str | None\<close>.\<close>

type_synonym pystate = "pystr option"

fun py_is :: "pystate \<Rightarrow> pystate \<Rightarrow> bool" where
  "py_is None None = True"
| "py_is (Some a) (Some b) = (str_id a = str_id b)"
| "py_is _ _ = False"

fun py_eq :: "pystate \<Rightarrow> pystate \<Rightarrow> bool" where
  "py_eq None None = True"
| "py_eq (Some a) (Some b) = (str_chars a = str_chars b)"
| "py_eq _ _ = False"

text \<open>
  The payload of an event (\<^verbatim>\<open>Any\<close>), as far as \<^verbatim>\<open>log_event\<close>, \<^verbatim>\<open>step\<close> and
  \<^verbatim>\<open>run\<close> tell values apart. A component object is a \<open>PyComp\<close> when its class
  derives from \<^verbatim>\<open>simlog.engine.BaseComponent\<close> (the class the examples import) and a
  \<open>PySrcComp\<close> when it derives from \<^verbatim>\<open>src.simlog.engine.base.BaseComponent\<close>, the
  class that component_manager.py imports and tests with \<^verbatim>\<open>isinstance\<close>: the two
  modules are loaded separately and their classes are different objects.
  \<open>PyStopSimulation v\<close> is an exception object of simpy's class
  \<^verbatim>\<open>StopSimulation\<close> with the argument \<open>v\<close>; \<open>PyInterrupt c\<close> one of class
  \<^verbatim>\<open>Interrupt\<close> with the cause \<open>c\<close>.
\<close>

datatype pyval =
    PyNone
  | PyStr string
  | PyInt int
  | PyUuid uuid
  | PyComp ref
  | PySrcComp ref
  | PyInterrupt pyval
  | PyStopSimulation pyval
  | PyDict "(string \<times> pyval) list"

datatype error =
    UnsetManager
  | EmptySchedule
  | KeyError
  | AttributeError
  | ValueError
  | RuntimeError
  | EventFailure "pyval option"
  | StopSimulation pyval
  | CallbackError nat

subsection \<open>Events (events.py)\<close>

text \<open>
  The classes an object in the queue can have: simpy's own \<^verbatim>\<open>Event\<close>, \<^verbatim>\<open>Timeout\<close>,
  \<^verbatim>\<open>Initialize\<close> and \<^verbatim>\<open>Process\<close>, and the classes of \<^verbatim>\<open>events.py\<close>.
\<close>

datatype event_class =
    SimpyEvent
  | SimpyTimeout
  | SimpyInitialize
  | SimpyProcess
  | BaseSimLogEvent
  | SimLogTimeout
  | SimLogTargetedTimeout
  | SimLogSingleRefEvent
  | SimLogUuidRefEvent
  | SimLogProcess
  | SimLogInitialize

text \<open>\<^verbatim>\<open>isinstance(e, BaseSimLogEvent)\<close>: the class itself and its subclasses.\<close>

fun is_BaseSimLogEvent :: "event_class \<Rightarrow> bool" where
  "is_BaseSimLogEvent BaseSimLogEvent = True"
| "is_BaseSimLogEvent SimLogTimeout = True"
| "is_BaseSimLogEvent SimLogTargetedTimeout = True"
| "is_BaseSimLogEvent SimLogSingleRefEvent = True"
| "is_BaseSimLogEvent SimLogUuidRefEvent = True"
| "is_BaseSimLogEvent SimLogInitialize = True"
| "is_BaseSimLogEvent _ = False"

text \<open>\<^verbatim>\<open>isinstance(e, SimLogTimeout)\<close>: \<^verbatim>\<open>SimLogTargetedTimeout\<close> derives from it.\<close>

fun is_SimLogTimeout :: "event_class \<Rightarrow> bool" where
  "is_SimLogTimeout SimLogTimeout = True"
| "is_SimLogTimeout SimLogTargetedTimeout = True"
| "is_SimLogTimeout _ = False"

datatype parent_ref = ParentNone | ParentUuid uuid | ParentStr string | ParentComp ref

datatype single_ref = RefNone | RefUuid uuid | RefComp ref

text \<open>
  A callback is a bound method: a component's \<^verbatim>\<open>listen\<close>, a process's \<^verbatim>\<open>_resume\<close>,
  simpy's \<^verbatim>\<open>StopSimulation.callback\<close>, or any other callable.
\<close>

datatype callback = Listen ref | Resume nat | StopSimulationCallback | OtherCallback nat

text \<open>
  The attributes of an event object. \<open>single_reference = None\<close> is an object without
  the attribute; \<open>component_state = None\<close> is an object without the attribute or with
  the attribute \<^verbatim>\<open>None\<close> (the code only reads it under \<^verbatim>\<open>hasattr(...) and ...\<close>);
  \<open>ev_value = None\<close> is simpy's \<^verbatim>\<open>PENDING\<close>; \<open>defused\<close> is
  \<^verbatim>\<open>hasattr(event, "_defused")\<close>.
\<close>

record event =
  cls :: event_class
  topic :: "EventTopic option"
  parent :: parent_ref
  cause :: "nat option"
  single_reference :: "single_ref option"
  component_state :: pystate
  ev_value :: "pyval option"
  ok :: bool
  defused :: bool
  callbacks :: "callback list"

subsection \<open>Components, manager, environment\<close>

record component =
  uuid :: uuid
  name :: string
  subscriptions :: "EventTopic list"
  state :: pystate
  last_time_state_updated :: int

record LoggedEvent =
  log_topic :: string
  log_parent :: "string option"
  log_single_reference :: "string option"
  sim_time :: int
  log_value :: pyval
  simpy_id :: nat
  simpy_priority :: int
  log_component_state :: "string option"

text \<open>
  \<open>components = None\<close> is the Python \<^verbatim>\<open>None\<close>. \<open>subscriptions_lookup\<close> is a
  \<^verbatim>\<open>defaultdict(list)\<close>: a topic never stored reads as the empty list.
\<close>

record manager =
  components :: "ref list option"
  component_lookup :: "uuid \<rightharpoonup> ref"
  subscriptions_lookup :: "EventTopic \<Rightarrow> callback list"
  event_log :: "LoggedEvent list"

text \<open>
  A queue entry is simpy's tuple \<^verbatim>\<open>(time, priority, eid, event)\<close>; the event is the
  object stored under \<open>eid\<close> in \<open>events\<close>. Python compares the tuples
  lexicographically, which is the order of the product type here.
\<close>

type_synonym entry = "int \<times> int \<times> nat"

definition etime :: "entry \<Rightarrow> int" where "etime e = fst e"
definition eprio :: "entry \<Rightarrow> int" where "eprio e = fst (snd e)"
definition eseq :: "entry \<Rightarrow> nat" where "eseq e = snd (snd e)"

definition URGENT :: int where "URGENT = 0"
definition NORMAL :: int where "NORMAL = 1"

record env =
  now :: int
  eid :: nat
  queue :: "entry list"
  events :: "nat \<Rightarrow> event"
  comps :: "ref \<Rightarrow> component"
  env_manager :: "manager option"
  event_logging :: bool

subsection \<open>The queue (simpy's \<^verbatim>\<open>schedule\<close>, \<^verbatim>\<open>heapq\<close>)\<close>

text \<open>
  \<^verbatim>\<open>heappush\<close> and \<^verbatim>\<open>heappop\<close> are modelled by their contract: the queue is the
  collection of pending entries, \<^verbatim>\<open>queue[0]\<close> is its least entry, \<^verbatim>\<open>heappop\<close>
  removes and returns it and raises \<^verbatim>\<open>IndexError\<close> on an empty queue.
\<close>

fun heap_head :: "entry list \<Rightarrow> entry option" where
  "heap_head [] = None"
| "heap_head (x # xs) = Some (fold min xs x)"

definition heappop :: "entry list \<Rightarrow> (entry \<times> entry list) option" where
  "heappop q = (case heap_head q of None \<Rightarrow> None | Some m \<Rightarrow> Some (m, remove1 m q))"

text \<open>
  \<^verbatim>\<open>Environment.schedule(event, priority, delay)\<close>:
  \<^verbatim>\<open>heappush(self._queue, (self._now + delay, priority, next(self._eid), event))\<close>.
\<close>

definition schedule :: "env \<Rightarrow> event \<Rightarrow> int \<Rightarrow> int \<Rightarrow> env" where
  "schedule e ev priority delay =
     e\<lparr>queue := queue e @ [(now e + delay, priority, eid e)],
       events := (events e)(eid e := ev),
       eid := Suc (eid e)\<rparr>"

text \<open>
  The \<^verbatim>\<open>heappop\<close> of \<^verbatim>\<open>step\<close>:
  \<^verbatim>\<open>self._now, _, _, event = heappop(self._queue)\<close>, \<^verbatim>\<open>IndexError\<close> turned into
  \<^verbatim>\<open>EmptySchedule\<close>.
\<close>

definition pop_event :: "env \<Rightarrow> error + (entry \<times> env)" where
  "pop_event e =
     (case heappop (queue e) of
        None \<Rightarrow> Inl EmptySchedule
      | Some (m, q) \<Rightarrow> Inr (m, e\<lparr>now := etime m, queue := q\<rparr>))"

subsection \<open>The component manager (component_manager.py)\<close>

text \<open>
  The setter of \<^verbatim>\<open>components\<close>. Both lookups are rebuilt from the components as
  they are when the setter runs: \<^verbatim>\<open>_component_lookup[component.uuid] = component\<close>,
  and for each topic of \<^verbatim>\<open>component.subscriptions\<close>, in order,
  \<^verbatim>\<open>_subscriptions_lookup[topic].append(component.listen)\<close>.
\<close>

definition subscribe :: "ref \<Rightarrow> EventTopic \<Rightarrow> (EventTopic \<Rightarrow> callback list) \<Rightarrow> (EventTopic \<Rightarrow> callback list)" where
  "subscribe r t sl = sl(t := sl t @ [Listen r])"

definition attach_component ::
  "(ref \<Rightarrow> component) \<Rightarrow> ref \<Rightarrow> (uuid \<rightharpoonup> ref) \<times> (EventTopic \<Rightarrow> callback list) \<Rightarrow>
   (uuid \<rightharpoonup> ref) \<times> (EventTopic \<Rightarrow> callback list)" where
  "attach_component store r ls =
     ((fst ls)(uuid (store r) \<mapsto> r), fold (subscribe r) (subscriptions (store r)) (snd ls))"

definition set_components :: "(ref \<Rightarrow> component) \<Rightarrow> manager \<Rightarrow> ref list option \<Rightarrow> manager" where
  "set_components store m cs =
     (case cs of
        Some l \<Rightarrow>
          (let ls = fold (attach_component store) l (Map.empty, \<lambda>_. [])
           in m\<lparr>components := cs, component_lookup := fst ls, subscriptions_lookup := snd ls\<rparr>)
      | None \<Rightarrow>
          m\<lparr>components := cs, component_lookup := Map.empty, subscriptions_lookup := (\<lambda>_. [])\<rparr>)"

text \<open>\<^verbatim>\<open>ComponentManager.__init__\<close>.\<close>

definition new_manager :: "(ref \<Rightarrow> component) \<Rightarrow> ref list option \<Rightarrow> manager" where
  "new_manager store cs =
     set_components store
       \<lparr>components = None, component_lookup = Map.empty,
        subscriptions_lookup = (\<lambda>_. []), event_log = []\<rparr> cs"

definition get_component_name_by_uuid :: "(ref \<Rightarrow> component) \<Rightarrow> manager \<Rightarrow> uuid \<Rightarrow> string option" where
  "get_component_name_by_uuid store m u =
     (case component_lookup m u of None \<Rightarrow> None | Some r \<Rightarrow> Some (name (store r)))"

text \<open>
  \<^verbatim>\<open>self._component_lookup[event.single_reference].listen\<close>: a dictionary read, which
  raises \<^verbatim>\<open>KeyError\<close> for a key that is not stored (\<^verbatim>\<open>None\<close> and component
  objects are never keys); without the attribute the read raises \<^verbatim>\<open>AttributeError\<close>.
\<close>

definition lookup_listener :: "manager \<Rightarrow> single_ref option \<Rightarrow> error + callback" where
  "lookup_listener m sr =
     (case sr of
        None \<Rightarrow> Inl AttributeError
      | Some (RefUuid u) \<Rightarrow>
          (case component_lookup m u of None \<Rightarrow> Inl KeyError | Some r \<Rightarrow> Inr (Listen r))
      | Some _ \<Rightarrow> Inl KeyError)"

definition append_callback :: "event \<Rightarrow> error + callback \<Rightarrow> error + event" where
  "append_callback ev c =
     (case c of Inl x \<Rightarrow> Inl x | Inr cb \<Rightarrow> Inr (ev\<lparr>callbacks := callbacks ev @ [cb]\<rparr>))"

text \<open>
  \<^verbatim>\<open>topic = getattr(event, "topic", None)\<close>, then, unless it is \<^verbatim>\<open>None\<close>,
  \<^verbatim>\<open>event.callbacks += self._subscriptions_lookup[topic]\<close>.
\<close>

definition add_subscribers :: "manager \<Rightarrow> event \<Rightarrow> event" where
  "add_subscribers m ev =
     (case topic ev of
        None \<Rightarrow> ev
      | Some t \<Rightarrow> ev\<lparr>callbacks := callbacks ev @ subscriptions_lookup m t\<rparr>)"

text \<open>\<^verbatim>\<open>not self.components\<close>: the list is \<^verbatim>\<open>None\<close> or empty.\<close>

definition no_components :: "manager \<Rightarrow> bool" where
  "no_components m = (case components m of None \<Rightarrow> True | Some l \<Rightarrow> l = [])"

text \<open>\<^verbatim>\<open>ComponentManager.trigger_event\<close>, the branches in the order of the source.\<close>

definition trigger_event :: "manager \<Rightarrow> event \<Rightarrow> error + event" where
  "trigger_event m ev =
     (if no_components m then Inr ev
      else if cls ev = SimLogProcess then
        (if single_reference ev \<noteq> None
         then append_callback ev (lookup_listener m (single_reference ev))
         else Inr (add_subscribers m ev))
      else if cls ev = SimLogTargetedTimeout \<or> cls ev = SimLogUuidRefEvent then
        append_callback ev (lookup_listener m (single_reference ev))
      else if cls ev = SimLogSingleRefEvent then
        (case single_reference ev of
           Some (RefComp r) \<Rightarrow> Inr (ev\<lparr>callbacks := callbacks ev @ [Listen r]\<rparr>)
         | _ \<Rightarrow> Inl AttributeError)
      else if is_SimLogTimeout (cls ev) \<or> cls ev = SimLogInitialize \<or> is_BaseSimLogEvent (cls ev) then
        Inr (add_subscribers m ev)
      else Inr ev)"

text \<open>The parent label of \<^verbatim>\<open>log_event\<close> (lines 84 to 91).\<close>

definition resolve_parent :: "(ref \<Rightarrow> component) \<Rightarrow> manager \<Rightarrow> parent_ref \<Rightarrow> string option" where
  "resolve_parent store m p =
     (case p of
        ParentUuid u \<Rightarrow> get_component_name_by_uuid store m u
      | ParentStr s \<Rightarrow> (if s \<noteq> [] then Some s else None)
      | ParentComp r \<Rightarrow> Some (name (store r))
      | ParentNone \<Rightarrow> None)"

text \<open>
  Lines 92 and 93: \<^verbatim>\<open>_event.component_state.value\<close> is read when the attribute is
  truthy, that is a non-empty string; a \<^verbatim>\<open>str\<close> has no attribute \<^verbatim>\<open>value\<close>.
\<close>

definition read_component_state :: "pystate \<Rightarrow> error + string option" where
  "read_component_state cs =
     (case cs of
        None \<Rightarrow> Inr None
      | Some s \<Rightarrow> (if str_chars s \<noteq> [] then Inl AttributeError else Inr None))"

text \<open>The target label (lines 98 to 103).\<close>

definition resolve_single_reference ::
  "(ref \<Rightarrow> component) \<Rightarrow> manager \<Rightarrow> event \<Rightarrow> error + string option" where
  "resolve_single_reference store m ev =
     (if cls ev = SimLogSingleRefEvent then
        (case single_reference ev of
           Some (RefUuid u) \<Rightarrow> Inr (get_component_name_by_uuid store m u)
         | Some (RefComp r) \<Rightarrow> Inr (Some (name (store r)))
         | Some RefNone \<Rightarrow> Inr None
         | None \<Rightarrow> Inl AttributeError)
      else if cls ev = SimLogUuidRefEvent then
        (case single_reference ev of
           Some (RefUuid u) \<Rightarrow> Inr (get_component_name_by_uuid store m u)
         | Some _ \<Rightarrow> Inr None
         | None \<Rightarrow> Inl AttributeError)
      else Inr None)"

text \<open>
  The logged value (lines 105 to 112). \<^verbatim>\<open>_event.value\<close> is simpy's property, which
  raises \<^verbatim>\<open>AttributeError\<close> while the value is pending. The first test,
  \<^verbatim>\<open>isinstance(_event.value, BaseComponent)\<close>, is against the class imported from
  \<^verbatim>\<open>src.simlog.engine.base\<close>; every value that passes none of the three tests is
  logged as it is.
\<close>

definition resolve_value :: "(ref \<Rightarrow> component) \<Rightarrow> manager \<Rightarrow> pyval option \<Rightarrow> error + pyval" where
  "resolve_value store m v =
     (case v of
        None \<Rightarrow> Inl AttributeError
      | Some (PySrcComp r) \<Rightarrow> Inr (PyStr (name (store r)))
      | Some (PyUuid u) \<Rightarrow>
          Inr (case get_component_name_by_uuid store m u of None \<Rightarrow> PyNone | Some n \<Rightarrow> PyStr n)
      | Some (PyInterrupt c) \<Rightarrow> Inr (PyDict [(''interruption cause'', c)])
      | Some w \<Rightarrow> Inr w)"

text \<open>
  \<^verbatim>\<open>ComponentManager.log_event\<close>. The argument is the queue entry and the event it
  holds; the result is the manager with the record appended, the manager unchanged
  when the function returns early, or the exception.
\<close>

definition log_event :: "(ref \<Rightarrow> component) \<Rightarrow> manager \<Rightarrow> entry \<Rightarrow> event \<Rightarrow> error + manager" where
  "log_event store m en ev =
     (if cls ev = SimpyInitialize \<or> cls ev = SimpyTimeout then Inr m
      else
        (case (if is_BaseSimLogEvent (cls ev) \<or> cls ev = SimLogProcess
               then (case read_component_state (component_state ev) of
                       Inl x \<Rightarrow> Inl x
                     | Inr cs \<Rightarrow> Inr (topic ev, resolve_parent store m (parent ev), cs))
               else Inr (None, None, None)) of
           Inl x \<Rightarrow> Inl x
         | Inr (tp, par, cs) \<Rightarrow>
             (case tp of
                None \<Rightarrow> Inr m
              | Some t \<Rightarrow>
                  (case resolve_single_reference store m ev of
                     Inl x \<Rightarrow> Inl x
                   | Inr sr \<Rightarrow>
                       (case resolve_value store m (ev_value ev) of
                          Inl x \<Rightarrow> Inl x
                        | Inr v \<Rightarrow>
                            Inr (m\<lparr>event_log := event_log m @
                                   [\<lparr>log_topic = topic_value t, log_parent = par,
                                     log_single_reference = sr, sim_time = etime en,
                                     log_value = v, simpy_id = eseq en,
                                     simpy_priority = eprio en,
                                     log_component_state = cs\<rparr>]\<rparr>))))))"

subsection \<open>Event constructors (events.py, simpy's \<^verbatim>\<open>Event\<close>)\<close>

text \<open>
  \<^verbatim>\<open>BaseSimLogEvent.__init__\<close>: a pending event with an empty callback list. The
  flag \<open>ok\<close> is meaningful once the event is triggered, which the callers below do
  before the event enters the queue.
\<close>

definition new_event :: "event_class \<Rightarrow> EventTopic option \<Rightarrow> parent_ref \<Rightarrow> nat option \<Rightarrow> event" where
  "new_event c t p cs =
     \<lparr>cls = c, topic = t, parent = p, cause = cs, single_reference = None,
      component_state = None, ev_value = None, ok = True, defused = False, callbacks = []\<rparr>"

text \<open>
  simpy's \<^verbatim>\<open>Event.succeed(value)\<close>: raises \<^verbatim>\<open>RuntimeError\<close> when the event has
  been triggered already, else sets \<^verbatim>\<open>_ok\<close> and \<^verbatim>\<open>_value\<close> and calls
  \<^verbatim>\<open>env.schedule(self)\<close>, that is with priority \<^verbatim>\<open>NORMAL\<close> and delay 0. The
  result is the sequence number under which the event is stored, and the environment.
\<close>

definition succeed :: "env \<Rightarrow> event \<Rightarrow> pyval \<Rightarrow> error + (nat \<times> env)" where
  "succeed e ev v =
     (if ev_value ev \<noteq> None then Inl RuntimeError
      else Inr (eid e, schedule e (ev\<lparr>ok := True, ev_value := Some v\<rparr>) NORMAL 0))"

text \<open>
  \<^verbatim>\<open>SimLogTimeout.__init__\<close> and \<^verbatim>\<open>SimLogTargetedTimeout.__init__\<close>: the value
  is set, a negative delay raises \<^verbatim>\<open>ValueError\<close>, and the event is scheduled with
  priority \<^verbatim>\<open>NORMAL\<close>. The targeted variant sets \<^verbatim>\<open>single_reference\<close> on the same
  object after the constructor of its base class has scheduled it.
\<close>

definition new_timeout :: "env \<Rightarrow> event \<Rightarrow> int \<Rightarrow> pyval \<Rightarrow> error + (nat \<times> env)" where
  "new_timeout e ev delay v =
     (if delay < 0 then Inl ValueError
      else Inr (eid e, schedule e (ev\<lparr>ok := True, ev_value := Some v\<rparr>) NORMAL delay))"

subsection \<open>The component base class (base.py)\<close>

datatype location = LocNone | LocStr string | LocUuid uuid

text \<open>
  The first statement of \<^verbatim>\<open>update_state\<close>: a UUID is replaced by the component's
  name through \<^verbatim>\<open>self.env.manager\<close>, which raises \<^verbatim>\<open>AttributeError\<close> when no
  manager is set.
\<close>

definition resolve_location :: "env \<Rightarrow> location \<Rightarrow> error + pyval" where
  "resolve_location e loc =
     (case loc of
        LocUuid u \<Rightarrow>
          (case env_manager e of
             None \<Rightarrow> Inl AttributeError
           | Some m \<Rightarrow>
               Inr (case get_component_name_by_uuid (comps e) m u of
                      None \<Rightarrow> PyNone | Some n \<Rightarrow> PyStr n))
      | LocStr s \<Rightarrow> Inr (PyStr s)
      | LocNone \<Rightarrow> Inr PyNone)"

text \<open>
  \<^verbatim>\<open>BaseComponent.update_state\<close> of the component \<open>r\<close>. The test is
  \<^verbatim>\<open>new_state is self.state\<close>, the identity of the two objects. In the other branch
  the state is stored, and a \<^verbatim>\<open>BaseSimLogEvent\<close> with topic \<^verbatim>\<open>STATE_CHANGE\<close>, the
  component's UUID as parent and the state as \<^verbatim>\<open>component_state\<close> is triggered with
  the location as value. No other attribute of the component is written.
\<close>

definition update_state :: "ref \<Rightarrow> pystate \<Rightarrow> location \<Rightarrow> env \<Rightarrow> error + env" where
  "update_state r new_state loc e =
     (case resolve_location e loc of
        Inl x \<Rightarrow> Inl x
      | Inr l \<Rightarrow>
          (if py_is new_state (state (comps e r)) then Inr e
           else
             (let e1 = e\<lparr>comps := (comps e)(r := (comps e r)\<lparr>state := new_state\<rparr>)\<rparr>;
                  ev = (new_event BaseSimLogEvent (Some STATE_CHANGE)
                          (ParentUuid (uuid (comps e1 r))) None)
                       \<lparr>component_state := state (comps e1 r)\<rparr>
              in (case succeed e1 ev l of Inl x \<Rightarrow> Inl x | Inr (i, e2) \<Rightarrow> Inr e2))))"

text \<open>
  \<^verbatim>\<open>BaseComponent.create_event\<close> of the component \<open>r\<close>. Python's truth test:
  a UUID object is always true, \<^verbatim>\<open>None\<close> is false, an integer is true unless it
  is 0.
\<close>

definition truthy_target :: "uuid option \<Rightarrow> bool" where
  "truthy_target target = (target \<noteq> None)"

definition truthy_timeout :: "int option \<Rightarrow> bool" where
  "truthy_timeout timeout = (case timeout of None \<Rightarrow> False | Some d \<Rightarrow> d \<noteq> 0)"

definition target_ref :: "uuid option \<Rightarrow> single_ref" where
  "target_ref target = (case target of None \<Rightarrow> RefNone | Some u \<Rightarrow> RefUuid u)"

definition create_event ::
  "ref \<Rightarrow> EventTopic \<Rightarrow> uuid option \<Rightarrow> nat option \<Rightarrow> pyval \<Rightarrow> int option \<Rightarrow> env \<Rightarrow>
   error + (nat \<times> env)" where
  "create_event r tp target cs v timeout e =
     (let p = ParentUuid (uuid (comps e r)) in
      if \<not> (truthy_target target \<or> truthy_timeout timeout) then
        succeed e (new_event BaseSimLogEvent (Some tp) p cs) v
      else if \<not> truthy_timeout timeout then
        succeed e ((new_event SimLogUuidRefEvent (Some tp) p cs)
                     \<lparr>single_reference := Some (target_ref target)\<rparr>) v
      else if truthy_timeout timeout \<and> \<not> truthy_target target then
        (case timeout of
           Some delay \<Rightarrow> new_timeout e (new_event SimLogTimeout (Some tp) p cs) delay v
         | None \<Rightarrow> Inl ValueError)
      else if truthy_timeout timeout \<and> truthy_target target then
        (case timeout of
           Some delay \<Rightarrow>
             new_timeout e ((new_event SimLogTargetedTimeout (Some tp) p cs)
                              \<lparr>single_reference := Some (target_ref target)\<rparr>) delay v
         | None \<Rightarrow> Inl ValueError)
      else Inl ValueError)"

text \<open>
  \<^verbatim>\<open>SimLogInitialize.__init__\<close>, called by \<^verbatim>\<open>SimLogProcess.__init__\<close> with the start
  topic: the callback list is the process's \<^verbatim>\<open>_resume\<close>, the value is \<^verbatim>\<open>None\<close>,
  and the event is scheduled with priority \<^verbatim>\<open>URGENT\<close>.
\<close>

definition new_SimLogInitialize :: "env \<Rightarrow> nat \<Rightarrow> EventTopic option \<Rightarrow> uuid \<Rightarrow> nat \<times> env" where
  "new_SimLogInitialize e process tp p =
     (eid e,
      schedule e ((new_event SimLogInitialize tp (ParentUuid p) None)
                    \<lparr>callbacks := [Resume process], ev_value := Some PyNone, ok := True\<rparr>)
        URGENT 0)"

subsection \<open>The environment (environment.py)\<close>

text \<open>
  What a callback does is not part of the kernel: it is the parameter \<open>call\<close>, which
  receives the callback, the event (by its sequence number) and the environment and
  returns the environment it leaves, or the exception it raises.
  \<^verbatim>\<open>StopSimulation.callback\<close> is simpy's: it raises \<^verbatim>\<open>StopSimulation(event.value)\<close>
  for a successful event and the event's exception otherwise.
\<close>

type_synonym call = "callback \<Rightarrow> nat \<Rightarrow> env \<Rightarrow> error + env"

text \<open>
  Raising the failure of an event. \<^verbatim>\<open>step\<close> raises
  a new exception of the class and arguments of \<^verbatim>\<open>event._value\<close>, and \<^verbatim>\<open>StopSimulation.callback\<close>
  raises \<^verbatim>\<open>event._value\<close> itself: an exception of the class of the value. The one
  class the kernel treats apart is \<^verbatim>\<open>StopSimulation\<close>, which \<^verbatim>\<open>run\<close> catches.
\<close>

definition reraise :: "pyval option \<Rightarrow> error" where
  "reraise v = (case v of Some (PyStopSimulation a) \<Rightarrow> StopSimulation a | _ \<Rightarrow> EventFailure v)"

definition invoke :: "call \<Rightarrow> callback \<Rightarrow> nat \<Rightarrow> env \<Rightarrow> error + env" where
  "invoke call cb i e =
     (if cb = StopSimulationCallback then
        (if ok (events e i)
         then (case ev_value (events e i) of
                 None \<Rightarrow> Inl AttributeError | Some v \<Rightarrow> Inl (StopSimulation v))
         else Inl (reraise (ev_value (events e i))))
      else call cb i e)"

fun run_callbacks :: "call \<Rightarrow> callback list \<Rightarrow> nat \<Rightarrow> env \<Rightarrow> error + env" where
  "run_callbacks call [] i e = Inr e"
| "run_callbacks call (cb # cbs) i e =
     (case invoke call cb i e of Inl x \<Rightarrow> Inl x | Inr e' \<Rightarrow> run_callbacks call cbs i e')"

text \<open>
  The part of \<^verbatim>\<open>step\<close> that simlog adds (lines 64 to 70): when the queue is not
  empty, \<^verbatim>\<open>trigger_event\<close> on the event of \<^verbatim>\<open>queue[0]\<close>, then, when logging is
  enabled, \<^verbatim>\<open>log_event\<close> on that entry.
\<close>

definition notify :: "manager \<Rightarrow> env \<Rightarrow> error + env" where
  "notify m e =
     (case heap_head (queue e) of
        None \<Rightarrow> Inr e
      | Some en \<Rightarrow>
          (case trigger_event m (events e (eseq en)) of
             Inl x \<Rightarrow> Inl x
           | Inr ev \<Rightarrow>
               (let e1 = e\<lparr>events := (events e)(eseq en := ev)\<rparr> in
                if event_logging e then
                  (case log_event (comps e) m en ev of
                     Inl x \<Rightarrow> Inl x
                   | Inr m1 \<Rightarrow> Inr (e1\<lparr>env_manager := Some m1\<rparr>))
                else Inr e1)))"

text \<open>
  The rest of \<^verbatim>\<open>step\<close> (lines 71 to 88): pop the entry, take the callbacks off the
  event, call each one, then raise the event's failure if the event is not ok and has
  no attribute \<^verbatim>\<open>_defused\<close>.
\<close>

definition fire :: "call \<Rightarrow> env \<Rightarrow> error + env" where
  "fire call e =
     (case pop_event e of
        Inl x \<Rightarrow> Inl x
      | Inr (en, e1) \<Rightarrow>
          (let i = eseq en;
               cbs = callbacks (events e1 i);
               e2 = e1\<lparr>events := (events e1)(i := (events e1 i)\<lparr>callbacks := []\<rparr>)\<rparr>
           in (case run_callbacks call cbs i e2 of
                 Inl x \<Rightarrow> Inl x
               | Inr e3 \<Rightarrow>
                   (if \<not> ok (events e3 i) \<and> \<not> defused (events e3 i)
                    then Inl (reraise (ev_value (events e3 i)))
                    else Inr e3))))"

text \<open>\<^verbatim>\<open>SimLogEnvironment.step\<close>.\<close>

definition step :: "call \<Rightarrow> env \<Rightarrow> error + env" where
  "step call e =
     (case env_manager e of
        None \<Rightarrow> Inl UnsetManager
      | Some m \<Rightarrow> (case notify m e of Inl x \<Rightarrow> Inl x | Inr e1 \<Rightarrow> fire call e1))"

text \<open>
  simpy's \<^verbatim>\<open>Environment.run\<close>, which \<^verbatim>\<open>SimLogEnvironment\<close> inherits. Its loop is
  \<^verbatim>\<open>while True: self.step()\<close>: it ends only by an exception of \<^verbatim>\<open>step\<close>. The loop
  is given fuel; \<open>None\<close> is a loop still running when the fuel is used up. \<^verbatim>\<open>run\<close>
  turns \<^verbatim>\<open>StopSimulation\<close> into its return value and lets every other exception
  of \<^verbatim>\<open>step\<close> through (the \<^verbatim>\<open>EmptySchedule\<close> it catches is simpy's class, the one
  \<^verbatim>\<open>step\<close> raises is the class environment.py defines). With a number as
  \<^verbatim>\<open>until\<close>, an urgent event with the callback \<^verbatim>\<open>StopSimulation.callback\<close> is
  scheduled at that time first.
\<close>




subsection \<open>Runs of the scheduler\<close>

text \<open>
  A run: calls of \<^verbatim>\<open>schedule\<close> from outside (the constructors above, before the
  run or between two steps) and calls of \<^verbatim>\<open>step\<close>. \<open>popped e\<close> is the entry
  that \<^verbatim>\<open>step\<close> pops in the environment \<open>e\<close>, if it gets that far: the head of
  the queue once the manager is there and \<^verbatim>\<open>trigger_event\<close> and \<^verbatim>\<open>log_event\<close>
  have returned. \<open>exec\<close> returns the trace of the run: each popped entry with the
  entries that were still pending when it was popped. An exception of \<^verbatim>\<open>step\<close> ends
  the run.
\<close>

datatype op = Schedule event int int | Step

definition popped :: "env \<Rightarrow> entry option" where
  "popped e =
     (case env_manager e of
        None \<Rightarrow> None
      | Some m \<Rightarrow> (case notify m e of Inl x \<Rightarrow> None | Inr e1 \<Rightarrow> heap_head (queue e1)))"

definition record_popped :: "env \<Rightarrow> (entry \<times> entry list) list \<Rightarrow> (entry \<times> entry list) list" where
  "record_popped e tr =
     (case popped e of None \<Rightarrow> tr | Some en \<Rightarrow> tr @ [(en, remove1 en (queue e))])"

fun exec :: "call \<Rightarrow> op list \<Rightarrow> env \<Rightarrow> (entry \<times> entry list) list \<Rightarrow> (entry \<times> entry list) list" where
  "exec call [] e tr = tr"
| "exec call (Schedule ev priority delay # ops) e tr =
     exec call ops (schedule e ev priority delay) tr"
| "exec call (Step # ops) e tr =
     (case step call e of
        Inl x \<Rightarrow> record_popped e tr
      | Inr e' \<Rightarrow> exec call ops e' (record_popped e tr))"

definition fired :: "call \<Rightarrow> op list \<Rightarrow> env \<Rightarrow> entry list" where
  "fired call ops e = map fst (exec call ops e [])"

text \<open>
  What a callback does to the scheduler when all it does there is call
  \<^verbatim>\<open>schedule\<close> with delays that are not negative (itself, or through
  \<^verbatim>\<open>create_event\<close>, \<^verbatim>\<open>update_state\<close>, \<^verbatim>\<open>succeed\<close> or a constructor): the clock
  stays, and the queue grows at its end by entries that are not in the past and
  carry the sequence numbers drawn from the counter.
\<close>

definition schedules_only :: "env \<Rightarrow> env \<Rightarrow> bool" where
  "schedules_only e e' =
     (now e' = now e \<and> eid e \<le> eid e' \<and>
      take (length (queue e)) (queue e') = queue e \<and>
      distinct (map eseq (drop (length (queue e)) (queue e'))) \<and>
      list_all (\<lambda>x. now e \<le> etime x \<and> eid e \<le> eseq x \<and> eseq x < eid e')
        (drop (length (queue e)) (queue e')))"

fun nonneg_delay :: "op \<Rightarrow> bool" where
  "nonneg_delay (Schedule ev priority delay) = (0 \<le> delay)"
| "nonneg_delay Step = True"

text \<open>
  The order between two firings: time does not go back, and for equal time and
  priority the sequence number grows.
\<close>

definition fires_before :: "entry \<Rightarrow> entry \<Rightarrow> bool" where
  "fires_before a b =
     (etime a \<le> etime b \<and> (etime a = etime b \<and> eprio a = eprio b \<longrightarrow> eseq a < eseq b))"

definition least_fired :: "(entry \<times> entry list) list \<Rightarrow> bool" where
  "least_fired tr = (\<forall>p \<in> set tr. \<forall>x \<in> set (snd p). fst p < x)"

definition sched_inv :: "env \<Rightarrow> (entry \<times> entry list) list \<Rightarrow> bool" where
  "sched_inv e tr =
     ((\<forall>x \<in> set (queue e). now e \<le> etime x \<and> eseq x < eid e) \<and>
      distinct (map eseq (queue e)) \<and>
      (\<forall>f \<in> set (map fst tr). etime f \<le> now e \<and> eseq f < eid e \<and>
         (\<forall>x \<in> set (queue e). etime f = etime x \<and> eprio f = eprio x \<longrightarrow> eseq f < eseq x)) \<and>
      sorted_wrt fires_before (map fst tr) \<and> least_fired tr)"

subsection \<open>Concrete inputs\<close>

text \<open>A fresh \<^verbatim>\<open>SimLogEnvironment()\<close>: time 0, an empty queue, no manager, logging on.\<close>

definition blank_component :: component where
  "blank_component =
     \<lparr>uuid = 0, name = ''BaseComponent'', subscriptions = [], state = None,
      last_time_state_updated = 0\<rparr>"

definition env0 :: env where
  "env0 =
     \<lparr>now = 0, eid = 0, queue = [],
      events = (\<lambda>_. new_event SimpyEvent None ParentNone None),
      comps = (\<lambda>_. blank_component), env_manager = None, event_logging = True\<rparr>"

definition ev0 :: event where
  "ev0 = new_event BaseSimLogEvent (Some DUMMY_EVENT) ParentNone None"

text \<open>
  The listeners of the components of \<open>cs\<close> that the store \<open>store\<close> declares as
  subscribed to the topic \<open>t\<close>, in registration order (a component that lists the
  topic twice is listed twice).
\<close>

definition subscribers :: "(ref \<Rightarrow> component) \<Rightarrow> ref list \<Rightarrow> EventTopic \<Rightarrow> callback list" where
  "subscribers store cs t =
     concat (map (\<lambda>r. map (\<lambda>_. Listen r) (filter (\<lambda>x. x = t) (subscriptions (store r)))) cs)"

text \<open>The setter of \<^verbatim>\<open>BaseComponent.subscriptions\<close>: it writes the component only.\<close>

definition set_subscriptions :: "ref \<Rightarrow> EventTopic list \<Rightarrow> env \<Rightarrow> env" where
  "set_subscriptions r subs e =
     e\<lparr>comps := (comps e)(r := (comps e r)\<lparr>subscriptions := subs\<rparr>)\<rparr>"

text \<open>
  Two components: A (reference 0, UUID 10) subscribes to nothing, B (reference 1,
  UUID 11) subscribes to \<^verbatim>\<open>DUMMY_EVENT\<close>. \<open>env_ab\<close> is a fresh environment whose
  manager was built with \<^verbatim>\<open>components=[A, B]\<close>.
\<close>

definition comp_a :: component where
  "comp_a =
     \<lparr>uuid = 10, name = ''A'', subscriptions = [], state = None, last_time_state_updated = 0\<rparr>"

definition comp_b :: component where
  "comp_b =
     \<lparr>uuid = 11, name = ''B'', subscriptions = [DUMMY_EVENT], state = None,
      last_time_state_updated = 0\<rparr>"

definition store_ab :: "ref \<Rightarrow> component" where
  "store_ab r = (if r = 0 then comp_a else comp_b)"

definition env_ab :: env where
  "env_ab = env0\<lparr>comps := store_ab, env_manager := Some (new_manager store_ab (Some [0, 1]))\<rparr>"

text \<open>A triggered event of class \<open>c\<close> on \<^verbatim>\<open>DUMMY_EVENT\<close> whose target is the UUID \<open>u\<close>.\<close>

definition targeted :: "event_class \<Rightarrow> uuid \<Rightarrow> event" where
  "targeted c u =
     (new_event c (Some DUMMY_EVENT) ParentNone None)
       \<lparr>single_reference := Some (RefUuid u), ev_value := Some PyNone\<rparr>"

text \<open>Two string objects with the same characters, as two calls of \<^verbatim>\<open>str.join\<close> give.\<close>

definition busy1 :: pystr where "busy1 = PyString 1 ''busy''"
definition busy2 :: pystr where "busy2 = PyString 2 ''busy''"

text \<open>
  \<open>env_busy\<close>: A has called \<^verbatim>\<open>update_state\<close> with the first string at time 0.
  \<open>env_busy_twice\<close>: A has then called it again with the second string.
  \<open>env_late_busy\<close>: A calls \<^verbatim>\<open>update_state\<close> for the first time at time 5.
\<close>

definition env_busy :: env where
  "env_busy =
     (case update_state 0 (Some busy1) LocNone env_ab of Inr e \<Rightarrow> e | Inl x \<Rightarrow> env_ab)"

definition env_busy_twice :: env where
  "env_busy_twice =
     (case update_state 0 (Some busy2) LocNone env_busy of Inr e \<Rightarrow> e | Inl x \<Rightarrow> env_busy)"

definition env_late_busy :: env where
  "env_late_busy =
     (case update_state 0 (Some busy1) LocNone (env_ab\<lparr>now := 5\<rparr>) of
        Inr e \<Rightarrow> e | Inl x \<Rightarrow> env_ab)"

text \<open>The class of the event that \<^verbatim>\<open>create_event\<close> returns.\<close>

definition created_class :: "error + (nat \<times> env) \<Rightarrow> error + event_class" where
  "created_class res = (case res of Inl x \<Rightarrow> Inl x | Inr (i, e) \<Rightarrow> Inr (cls (events e i)))"

text \<open>The callbacks an event holds after \<^verbatim>\<open>trigger_event\<close> has run in \<^verbatim>\<open>step\<close>.\<close>

definition attached :: "error + env \<Rightarrow> nat \<Rightarrow> error + callback list" where
  "attached res i = (case res of Inl x \<Rightarrow> Inl x | Inr e \<Rightarrow> Inr (callbacks (events e i)))"

text \<open>
  \<open>late_env\<close>: with the manager of \<open>env_ab\<close> in place, a broadcast event on
  \<^verbatim>\<open>DUMMY_EVENT\<close> is scheduled for time 5, and then A, which was not subscribed,
  sets its subscriptions to \<^verbatim>\<open>[DUMMY_EVENT]\<close>.
\<close>

definition late_env :: env where
  "late_env = set_subscriptions 0 [DUMMY_EVENT]
     (schedule env_ab (ev0\<lparr>ev_value := Some PyNone\<rparr>) NORMAL 5)"




text \<open>
  \<open>emit\<close>: every \<^verbatim>\<open>listen\<close> answers an event by
  \<^verbatim>\<open>self.create_event(topic=DUMMY_EVENT, timeout=2)\<close>; the other callbacks do
  nothing. In \<open>demo_ops\<close> two broadcast events on \<^verbatim>\<open>DUMMY_EVENT\<close> are scheduled
  for time 5, the second one urgent, and \<^verbatim>\<open>step\<close> is called three times.
\<close>

definition emit :: call where
  "emit cb i e =
     (case cb of
        Listen r \<Rightarrow>
          (case create_event r DUMMY_EVENT None None PyNone (Some 2) e of
             Inl x \<Rightarrow> Inl x
           | Inr (j, e') \<Rightarrow> Inr e')
      | _ \<Rightarrow> Inr e)"

definition ev0v :: event where
  "ev0v = ev0\<lparr>ev_value := Some PyNone\<rparr>"

definition demo_ops :: "op list" where
  "demo_ops = [Schedule ev0v NORMAL 5, Schedule ev0v URGENT 5, Step, Step, Step]"

section \<open>Properties\<close>

subsection \<open>The queue\<close>

lemma heap_head_least:
  assumes "heap_head q = Some m"
  shows "m \<in> set q \<and> (\<forall>x \<in> set q. m \<le> x)"
proof (cases q)
  case Nil
  with assms show ?thesis by simp
next
  case (Cons a as)
  with assms have "fold min as a = m" by simp
  then have m: "m = Min (set (a # as))" by (simp only: Min.set_eq_fold)
  have "Min (set (a # as)) \<in> set (a # as)" by (rule Min_in) simp_all
  moreover have "\<forall>x \<in> set (a # as). Min (set (a # as)) \<le> x" by (simp del: set_simps)
  ultimately show ?thesis using m Cons by simp
qed

lemma pop_eventD:
  assumes "pop_event e = Inr (m, e')"
  shows "m \<in> set (queue e) \<and> (\<forall>x \<in> set (queue e). m \<le> x) \<and>
         e' = e\<lparr>now := etime m, queue := remove1 m (queue e)\<rparr>"
  using assms heap_head_least [of "queue e"]
  by (auto simp: pop_event_def heappop_def split: option.splits)

lemma entry_le_time: "(a::entry) \<le> b \<Longrightarrow> etime a \<le> etime b"
  by (cases a, cases b) (auto simp: etime_def)

lemma entry_le_seq:
  "(a::entry) \<le> b \<Longrightarrow> etime a = etime b \<Longrightarrow> eprio a = eprio b \<Longrightarrow> eseq a \<le> eseq b"
  by (cases a, cases b) (auto simp: etime_def eprio_def eseq_def)

lemma entry_less_seq: "(a::entry) \<le> b \<Longrightarrow> eseq a \<noteq> eseq b \<Longrightarrow> a < b"
  by (cases a, cases b) (auto simp: eseq_def)

text \<open>\<^verbatim>\<open>schedule\<close> with a delay that is not negative keeps the invariant.\<close>

lemma sched_inv_schedule:
  assumes "sched_inv e tr" "0 \<le> delay"
  shows "sched_inv (schedule e ev priority delay) tr"
  using assms
  by (auto simp: sched_inv_def schedule_def etime_def eprio_def eseq_def)

text \<open>A firing keeps the invariant, and the fired entry joins the trace.\<close>

lemma sched_inv_pop:
  assumes inv: "sched_inv e tr" and pop: "pop_event e = Inr (m, e')"
  shows "sched_inv e' (tr @ [(m, queue e')])"
proof -
  from pop_eventD [OF pop] have m_in: "m \<in> set (queue e)"
    and m_le: "\<forall>x \<in> set (queue e). m \<le> x"
    and e': "e' = e\<lparr>now := etime m, queue := remove1 m (queue e)\<rparr>" by auto
  from inv have q: "\<forall>x \<in> set (queue e). now e \<le> etime x \<and> eseq x < eid e"
    and d: "distinct (map eseq (queue e))"
    and f: "\<forall>f \<in> set (map fst tr). etime f \<le> now e \<and> eseq f < eid e \<and>
         (\<forall>x \<in> set (queue e). etime f = etime x \<and> eprio f = eprio x \<longrightarrow> eseq f < eseq x)"
    and s: "sorted_wrt fires_before (map fst tr)" and l: "least_fired tr"
    by (auto simp: sched_inv_def)
  from d have dq: "distinct (queue e)" and inj: "inj_on eseq (set (queue e))"
    by (auto simp: distinct_map)
  have rest: "set (queue e') = set (queue e) - {m}" using dq e' by simp
  have seq_ne: "\<forall>x \<in> set (queue e'). eseq m \<noteq> eseq x"
    using rest inj m_in by (auto dest: inj_onD)
  have 1: "\<forall>x \<in> set (queue e'). now e' \<le> etime x \<and> eseq x < eid e'"
    using rest q m_le e' by (auto intro: entry_le_time)
  have 2: "distinct (map eseq (queue e'))"
    using dq inj rest e' by (auto simp: distinct_map intro: inj_on_subset)
  have m_lt: "\<forall>x \<in> set (queue e'). m < x"
    using rest m_le seq_ne by (auto intro: entry_less_seq)
  have now_le: "now e \<le> etime m" using q m_in by auto
  have 3: "\<forall>f \<in> set (map fst (tr @ [(m, queue e')])). etime f \<le> now e' \<and> eseq f < eid e' \<and>
         (\<forall>x \<in> set (queue e'). etime f = etime x \<and> eprio f = eprio x \<longrightarrow> eseq f < eseq x)"
  proof
    fix g assume "g \<in> set (map fst (tr @ [(m, queue e')]))"
    then consider "g \<in> set (map fst tr)" | "g = m" by auto
    then show "etime g \<le> now e' \<and> eseq g < eid e' \<and>
         (\<forall>x \<in> set (queue e'). etime g = etime x \<and> eprio g = eprio x \<longrightarrow> eseq g < eseq x)"
    proof cases
      case 1
      with f now_le rest e' show ?thesis by auto
    next
      case 2
      have "\<forall>x \<in> set (queue e'). etime m = etime x \<and> eprio m = eprio x \<longrightarrow> eseq m < eseq x"
      proof (intro ballI impI)
        fix x assume x: "x \<in> set (queue e')" and eq: "etime m = etime x \<and> eprio m = eprio x"
        from x rest m_le have "m \<le> x" by auto
        with eq have "eseq m \<le> eseq x" by (auto intro: entry_le_seq)
        with seq_ne x show "eseq m < eseq x" by (auto simp: le_less)
      qed
      with 2 q m_in e' show ?thesis by auto
    qed
  qed
  have 4: "sorted_wrt fires_before (map fst (tr @ [(m, queue e')]))"
  proof -
    have "\<forall>g \<in> set (map fst tr). fires_before g m"
      using f m_in now_le unfolding fires_before_def by fastforce
    with s show ?thesis by (simp add: sorted_wrt_append)
  qed
  have 5: "least_fired (tr @ [(m, queue e')])"
    using l m_lt by (auto simp: least_fired_def)
  from 1 2 3 4 5 show ?thesis unfolding sched_inv_def by blast
qed

lemma sched_inv_empty: "queue e = [] \<Longrightarrow> sched_inv e []"
  by (simp add: sched_inv_def least_fired_def)

subsection \<open>Evaluation of the concrete inputs\<close>

lemmas eval_defs =
  update_state_def resolve_location_def env_ab_def env0_def store_ab_def comp_a_def comp_b_def
  succeed_def new_event_def Let_def schedule_def busy1_def busy2_def NORMAL_def URGENT_def

lemma env_busy_eq: "update_state 0 (Some busy1) LocNone env_ab = Inr env_busy"
  by (simp add: env_busy_def eval_defs)

lemma env_busy_twice_eq: "update_state 0 (Some busy2) LocNone env_busy = Inr env_busy_twice"
  by (simp add: env_busy_twice_def env_busy_def eval_defs)

lemma env_late_busy_eq:
  "update_state 0 (Some busy1) LocNone (env_ab\<lparr>now := 5\<rparr>) = Inr env_late_busy"
  by (simp add: env_late_busy_def eval_defs)

lemma mgr_ab_facts:
  "components (new_manager store_ab (Some [0, 1])) = Some [0, 1]"
  "subscriptions_lookup (new_manager store_ab (Some [0, 1])) DUMMY_EVENT = [Listen 1]"
  "component_lookup (new_manager store_ab (Some [0, 1])) 11 = Some 1"
  "component_lookup (new_manager store_ab (Some [0, 1])) 10 = Some 0"
  "event_log (new_manager store_ab (Some [0, 1])) = []"
  by (simp_all add: new_manager_def set_components_def attach_component_def store_ab_def
      comp_a_def comp_b_def subscribe_def)

lemmas step_defs =
  step_def notify_def fire_def pop_event_def heappop_def trigger_event_def no_components_def
  add_subscribers_def log_event_def read_component_state_def resolve_parent_def
  resolve_single_reference_def resolve_value_def get_component_name_by_uuid_def
  invoke_def emit_def create_event_def truthy_target_def truthy_timeout_def new_timeout_def
  new_event_def schedule_def etime_def eprio_def eseq_def NORMAL_def URGENT_def Let_def
  popped_def record_popped_def

subsection \<open>Resolution of recipients\<close>

lemma components_set_components [simp]: "components (set_components store m0 cs) = cs"
  by (simp add: set_components_def Let_def split: option.splits)

lemma fold_attach_lookup:
  "fst (fold (attach_component store) cs ls) u =
     (if u \<in> uuid ` store ` set cs then fst (fold (attach_component store) cs ls) u
      else fst ls u)"
  by (induction cs arbitrary: ls) (auto simp: attach_component_def)

lemma component_lookup_unregistered:
  "u \<notin> uuid ` store ` set cs \<Longrightarrow>
   component_lookup (set_components store m0 (Some cs)) u = None"
  using fold_attach_lookup [of store cs "(Map.empty, \<lambda>_. [])" u]
  by (simp add: set_components_def Let_def)

text \<open>
  C9. When the manager's component list is \<^verbatim>\<open>None\<close> or empty, \<^verbatim>\<open>trigger_event\<close>
  returns at once and leaves the event as it is, whatever the event: no callback is
  attached and no lookup is made, so a single-targeted event with an unknown target
  raises nothing.
\<close>

theorem trigger_event_no_components:
  assumes "components m = None \<or> components m = Some []"
  shows "trigger_event m ev = Inr ev"
  using assms by (auto simp: trigger_event_def no_components_def)

theorem trigger_event_no_components_witness:
  "components (new_manager store_ab (Some [])) = Some [] \<and>
   component_lookup (new_manager store_ab (Some [])) 99 = None \<and>
   trigger_event (new_manager store_ab (Some [])) (targeted SimLogUuidRefEvent 99)
     = Inr (targeted SimLogUuidRefEvent 99)"
proof -
  have h: "components (new_manager store_ab (Some [])) = Some []"
    by (simp add: new_manager_def set_components_def)
  have l: "component_lookup (new_manager store_ab (Some [])) 99 = None"
    by (simp add: new_manager_def set_components_def)
  from trigger_event_no_components
         [of "new_manager store_ab (Some [])" "targeted SimLogUuidRefEvent 99"] h l
  show ?thesis by simp
qed

text \<open>
  C6, as stated, fails: with a manager whose component list is \<^verbatim>\<open>None\<close>, a
  \<^verbatim>\<open>SimLogTargetedTimeout\<close> whose target 99 is not registered is resolved without
  any error and without any recipient.
\<close>

theorem unknown_target_counterexample:
  "cls (targeted SimLogTargetedTimeout 99) = SimLogTargetedTimeout \<and>
   single_reference (targeted SimLogTargetedTimeout 99) = Some (RefUuid 99) \<and>
   component_lookup (new_manager store_ab None) 99 = None \<and>
   trigger_event (new_manager store_ab None) (targeted SimLogTargetedTimeout 99)
     = Inr (targeted SimLogTargetedTimeout 99)"
  by (simp add: targeted_def new_event_def new_manager_def set_components_def
      trigger_event_def no_components_def)

text \<open>
  C6, amended. When the manager's component list is not empty, resolving a
  \<^verbatim>\<open>SimLogTargetedTimeout\<close> or a \<^verbatim>\<open>SimLogUuidRefEvent\<close> whose target is not the UUID
  of any component of that list raises \<^verbatim>\<open>KeyError\<close>.
\<close>

theorem unknown_target_raises:
  assumes "m = set_components store m0 (Some cs)" and "cs \<noteq> []"
    and "cls ev = SimLogTargetedTimeout \<or> cls ev = SimLogUuidRefEvent"
    and "single_reference ev = Some (RefUuid u)"
    and "u \<notin> uuid ` store ` set cs"
  shows "trigger_event m ev = Inl KeyError"
proof -
  have "component_lookup m u = None"
    using assms(1,5) by (simp add: component_lookup_unregistered)
  moreover have "\<not> no_components m" using assms(1,2) by (simp add: no_components_def)
  ultimately show ?thesis using assms(3,4)
    by (auto simp: trigger_event_def lookup_listener_def append_callback_def)
qed

theorem unknown_target_raises_witness:
  "[0, 1] \<noteq> ([]::ref list) \<and> 99 \<notin> uuid ` store_ab ` set [0, 1] \<and>
   trigger_event (new_manager store_ab (Some [0, 1])) (targeted SimLogUuidRefEvent 99)
     = Inl KeyError"
proof -
  have h5: "99 \<notin> uuid ` store_ab ` set [0, 1]"
    by (simp add: store_ab_def comp_a_def comp_b_def)
  have h3: "cls (targeted SimLogUuidRefEvent 99) = SimLogTargetedTimeout \<or>
            cls (targeted SimLogUuidRefEvent 99) = SimLogUuidRefEvent"
    by (simp add: targeted_def new_event_def)
  have h4: "single_reference (targeted SimLogUuidRefEvent 99) = Some (RefUuid 99)"
    by (simp add: targeted_def)
  from unknown_target_raises [OF _ _ h3 h4 h5, of "new_manager store_ab (Some [0, 1])"
      "\<lparr>components = None, component_lookup = Map.empty,
        subscriptions_lookup = (\<lambda>_. []), event_log = []\<rparr>"] h5
  show ?thesis by (simp add: new_manager_def)
qed

subsection \<open>Logging\<close>

text \<open>
  C3, as stated, fails: the \<^verbatim>\<open>SimLogInitialize\<close> that starts a process with the start
  topic \<^verbatim>\<open>DUMMY_EVENT\<close> is logged, with that topic and its parent's name.
\<close>

theorem internal_event_logged_counterexample:
  "cls (events (snd (new_SimLogInitialize env_ab 7 (Some DUMMY_EVENT) 10)) 0) = SimLogInitialize \<and>
   log_event store_ab (new_manager store_ab (Some [0, 1])) (0, URGENT, 0)
     (events (snd (new_SimLogInitialize env_ab 7 (Some DUMMY_EVENT) 10)) 0)
   = Inr ((new_manager store_ab (Some [0, 1]))
       \<lparr>event_log := [\<lparr>log_topic = ''DUMMY_EVENT'', log_parent = Some ''A'',
           log_single_reference = None, sim_time = 0, log_value = PyNone, simpy_id = 0,
           simpy_priority = 0, log_component_state = None\<rparr>]\<rparr>)"
  by (simp add: new_SimLogInitialize_def env_ab_def env0_def schedule_def new_event_def
      log_event_def read_component_state_def resolve_parent_def get_component_name_by_uuid_def
      new_manager_def set_components_def attach_component_def store_ab_def comp_a_def comp_b_def
      resolve_single_reference_def resolve_value_def etime_def eprio_def eseq_def URGENT_def)

text \<open>
  C3, amended. Logging one of simpy's own primitives, an \<^verbatim>\<open>Initialize\<close> (the resume
  trigger of a plain simpy process) or a \<^verbatim>\<open>Timeout\<close>, returns at once and appends no
  record. The \<^verbatim>\<open>SimLogInitialize\<close> that resumes the routine of a \<^verbatim>\<open>SimLogProcess\<close>
  is recorded, under its start topic and with the name of its parent, whenever it has
  a start topic; without one it leaves no record.
\<close>

theorem internal_event_records:
  "(cls ev = SimpyInitialize \<or> cls ev = SimpyTimeout \<longrightarrow> log_event store m en ev = Inr m) \<and>
   log_event store m en
     (events (snd (new_SimLogInitialize e process (Some t) p))
        (fst (new_SimLogInitialize e process (Some t) p)))
   = Inr (m\<lparr>event_log := event_log m @
            [\<lparr>log_topic = topic_value t,
              log_parent = get_component_name_by_uuid store m p,
              log_single_reference = None, sim_time = etime en, log_value = PyNone,
              simpy_id = eseq en, simpy_priority = eprio en,
              log_component_state = None\<rparr>]\<rparr>) \<and>
   log_event store m en
     (events (snd (new_SimLogInitialize e process None p))
        (fst (new_SimLogInitialize e process None p)))
   = Inr m"
  by (auto simp: log_event_def new_SimLogInitialize_def schedule_def new_event_def
      read_component_state_def resolve_parent_def resolve_single_reference_def resolve_value_def)

theorem internal_event_records_witness:
  "log_event store_ab (new_manager store_ab (Some [0, 1])) (3, NORMAL, 4)
     ((new_event SimpyTimeout None ParentNone None)\<lparr>ev_value := Some PyNone\<rparr>)
   = Inr (new_manager store_ab (Some [0, 1])) \<and>
   log_event store_ab (new_manager store_ab (Some [0, 1])) (0, URGENT, 0)
     (events (snd (new_SimLogInitialize env_ab 7 (Some PATIENT_JOINED_QUEUE) 11))
        (fst (new_SimLogInitialize env_ab 7 (Some PATIENT_JOINED_QUEUE) 11)))
   = Inr ((new_manager store_ab (Some [0, 1]))
       \<lparr>event_log := [\<lparr>log_topic = ''PATIENT_JOINED_QUEUE'', log_parent = Some ''B'',
           log_single_reference = None, sim_time = 0, log_value = PyNone, simpy_id = 0,
           simpy_priority = 0, log_component_state = None\<rparr>]\<rparr>)"
  using internal_event_records
          [of "(new_event SimpyTimeout None ParentNone None)\<lparr>ev_value := Some PyNone\<rparr>"
              store_ab "new_manager store_ab (Some [0, 1])" "(3, NORMAL, 4)"]
        internal_event_records
          [of _ store_ab "new_manager store_ab (Some [0, 1])" "(0, URGENT, 0)" env_ab 7
              PATIENT_JOINED_QUEUE 11]
  by (simp del: One_nat_def add: new_event_def mgr_ab_facts get_component_name_by_uuid_def
      store_ab_def comp_b_def etime_def eseq_def eprio_def URGENT_def)

lemma log_event_string_state:
  assumes "is_BaseSimLogEvent (cls ev)" "component_state ev = Some s" "str_chars s \<noteq> []"
  shows "log_event store m en ev = Inl AttributeError"
proof -
  from assms(1) have "cls ev \<noteq> SimpyInitialize" "cls ev \<noteq> SimpyTimeout" by auto
  with assms show ?thesis by (simp add: log_event_def read_component_state_def)
qed

lemma trigger_event_keeps:
  "trigger_event m ev = Inr ev' \<Longrightarrow>
   cls ev' = cls ev \<and> component_state ev' = component_state ev \<and> topic ev' = topic ev \<and>
   ok ev' = ok ev \<and> defused ev' = defused ev \<and> ev_value ev' = ev_value ev"
  by (auto simp: trigger_event_def append_callback_def add_subscribers_def
      split: if_splits sum.splits option.splits single_ref.splits)

lemma update_state_event:
  assumes "update_state r new_state loc e = Inr e'" "\<not> py_is new_state (state (comps e r))"
  shows "queue e' = queue e @ [(now e, NORMAL, eid e)] \<and>
         cls (events e' (eid e)) = BaseSimLogEvent \<and>
         topic (events e' (eid e)) = Some STATE_CHANGE \<and>
         component_state (events e' (eid e)) = new_state \<and>
         state (comps e' r) = new_state"
  using assms
  by (auto simp: update_state_def succeed_def schedule_def new_event_def Let_def
      split: sum.splits if_splits)

text \<open>
  C10. When \<^verbatim>\<open>update_state\<close> stores a new state that is a non-empty string, it
  schedules a \<^verbatim>\<open>STATE_CHANGE\<close> event that carries the string as
  \<^verbatim>\<open>component_state\<close>, and \<^verbatim>\<open>log_event\<close> on that event raises
  \<^verbatim>\<open>AttributeError\<close>, for every manager and every queue entry, also after
  \<^verbatim>\<open>trigger_event\<close> has attached the recipients: no record is appended.
\<close>

theorem state_change_log_raises:
  assumes "update_state r (Some s) loc e = Inr e'"
    and "\<not> py_is (Some s) (state (comps e r))"
    and "str_chars s \<noteq> []"
  shows "queue e' = queue e @ [(now e, NORMAL, eid e)] \<and>
         topic (events e' (eid e)) = Some STATE_CHANGE \<and>
         component_state (events e' (eid e)) = Some s \<and>
         log_event store m en (events e' (eid e)) = Inl AttributeError \<and>
         (\<forall>ev'. trigger_event m (events e' (eid e)) = Inr ev' \<longrightarrow>
                log_event store m en ev' = Inl AttributeError)"
proof -
  from update_state_event [OF assms(1,2)]
  have q: "queue e' = queue e @ [(now e, NORMAL, eid e)]"
    and c: "cls (events e' (eid e)) = BaseSimLogEvent"
    and t: "topic (events e' (eid e)) = Some STATE_CHANGE"
    and s: "component_state (events e' (eid e)) = Some s" by auto
  have l: "log_event store m en (events e' (eid e)) = Inl AttributeError"
    using c s assms(3) by (simp add: log_event_string_state)
  have "log_event store m en ev' = Inl AttributeError"
    if "trigger_event m (events e' (eid e)) = Inr ev'" for ev'
    using trigger_event_keeps [OF that] c s assms(3) by (simp add: log_event_string_state)
  with q t s l show ?thesis by blast
qed

theorem state_change_log_raises_witness:
  "update_state 0 (Some busy1) LocNone env_ab = Inr env_busy \<and>
   \<not> py_is (Some busy1) (state (comps env_ab 0)) \<and> str_chars busy1 \<noteq> [] \<and>
   queue env_busy = [(0, NORMAL, 0)] \<and>
   topic (events env_busy 0) = Some STATE_CHANGE \<and>
   trigger_event (new_manager store_ab (Some [0, 1])) (events env_busy 0)
     = Inr (events env_busy 0) \<and>
   log_event store_ab (new_manager store_ab (Some [0, 1])) (0, NORMAL, 0) (events env_busy 0)
     = Inl AttributeError"
proof -
  have h2: "\<not> py_is (Some busy1) (state (comps env_ab 0))"
    by (simp add: env_ab_def env0_def store_ab_def comp_a_def)
  have h3: "str_chars busy1 \<noteq> []" by (simp add: busy1_def)
  have q: "queue env_ab = []" "now env_ab = 0" "eid env_ab = 0"
    by (simp_all add: env_ab_def env0_def)
  have t: "trigger_event (new_manager store_ab (Some [0, 1])) (events env_busy 0)
     = Inr (events env_busy 0)"
    by (simp add: env_busy_def eval_defs trigger_event_def no_components_def new_manager_def
        set_components_def attach_component_def subscribe_def add_subscribers_def)
  from state_change_log_raises [OF env_busy_eq h2 h3, of store_ab
      "new_manager store_ab (Some [0, 1])" "(0, NORMAL, 0)"] h2 h3 q t env_busy_eq
  show ?thesis by simp
qed

subsection \<open>The component base class\<close>

lemma create_event_table:
  assumes "timeout \<noteq> Some 0" "\<forall>d. timeout = Some d \<longrightarrow> 0 \<le> d"
  shows "created_class (create_event r tp target cs v timeout e) =
     Inr (if target = None \<and> timeout = None then BaseSimLogEvent
          else if timeout = None then SimLogUuidRefEvent
          else if target = None then SimLogTimeout
          else SimLogTargetedTimeout)"
  using assms
  by (cases timeout; cases target)
     (auto simp: created_class_def create_event_def truthy_target_def truthy_timeout_def
        succeed_def new_timeout_def new_event_def schedule_def Let_def)

text \<open>
  C4 at the delay 0. \<^verbatim>\<open>create_event\<close> tests \<^verbatim>\<open>timeout\<close> for truth, and 0 is
  false: with the delay 0 and no target it returns a \<^verbatim>\<open>BaseSimLogEvent\<close>, not a
  \<^verbatim>\<open>SimLogTimeout\<close>, and with the delay 0 and a target a \<^verbatim>\<open>SimLogUuidRefEvent\<close>,
  not a \<^verbatim>\<open>SimLogTargetedTimeout\<close>. (For every other delay that is not negative
  the table holds: \<open>create_event_table\<close>.)
\<close>

theorem create_event_zero_delay:
  "created_class (create_event 0 DUMMY_EVENT None None PyNone (Some 0) env_ab)
     = Inr BaseSimLogEvent \<and>
   created_class (create_event 0 DUMMY_EVENT (Some 11) None PyNone (Some 0) env_ab)
     = Inr SimLogUuidRefEvent"
  by (simp add: created_class_def create_event_def truthy_target_def truthy_timeout_def eval_defs)

lemma update_state_keeps_stamp:
  "update_state r new_state loc e = Inr e' \<Longrightarrow>
   last_time_state_updated (comps e' q) = last_time_state_updated (comps e q)"
  by (auto simp: update_state_def succeed_def schedule_def Let_def split: sum.splits if_splits)

text \<open>
  C8 on the code. A component created at time 0 changes its state at time 5:
  the state is stored, and \<^verbatim>\<open>last_time_state_updated\<close> still is 0, the time of
  construction. (\<^verbatim>\<open>update_state\<close> never writes the attribute:
  \<open>update_state_keeps_stamp\<close>.)
\<close>

theorem update_state_stale_stamp:
  "now (env_ab\<lparr>now := 5\<rparr>) = 5 \<and> state (comps (env_ab\<lparr>now := 5\<rparr>) 0) = None \<and>
   update_state 0 (Some busy1) LocNone (env_ab\<lparr>now := 5\<rparr>) = Inr env_late_busy \<and>
   state (comps env_late_busy 0) = Some busy1 \<and> now env_late_busy = 5 \<and>
   last_time_state_updated (comps env_late_busy 0) = 0"
  using env_late_busy_eq by (simp add: env_late_busy_def eval_defs)

lemma update_state_same_object:
  "py_is new_state (state (comps e r)) \<Longrightarrow> resolve_location e loc = Inr l \<Longrightarrow>
   update_state r new_state loc e = Inr e"
  by (simp add: update_state_def)

text \<open>
  C7 on the code. \<^verbatim>\<open>update_state\<close> compares with \<^verbatim>\<open>is\<close>. Called twice in a row
  with two string objects that hold the same characters, it schedules a
  \<^verbatim>\<open>STATE_CHANGE\<close> event each time: the queue holds two. (Called with the very
  object that is the current state, it changes nothing: \<open>update_state_same_object\<close>.)
\<close>

theorem update_state_equal_strings:
  "state (comps env_busy 0) = Some busy1 \<and> str_chars busy2 = str_chars busy1 \<and>
   py_eq (Some busy2) (state (comps env_busy 0)) \<and>
   queue env_busy = [(0, NORMAL, 0)] \<and>
   update_state 0 (Some busy2) LocNone env_busy = Inr env_busy_twice \<and>
   queue env_busy_twice = [(0, NORMAL, 0), (0, NORMAL, 1)] \<and>
   topic (events env_busy_twice 0) = Some STATE_CHANGE \<and>
   topic (events env_busy_twice 1) = Some STATE_CHANGE"
  using env_busy_twice_eq by (simp add: env_busy_twice_def env_busy_def eval_defs)

subsection \<open>Late binding\<close>

lemma fold_subscribe:
  "fold (subscribe r) ts sl t = sl t @ map (\<lambda>_. Listen r) (filter (\<lambda>x. x = t) ts)"
  by (induction ts arbitrary: sl) (simp_all add: subscribe_def)

lemma subscribers_Cons:
  "subscribers store (r # cs) t =
     map (\<lambda>_. Listen r) (filter (\<lambda>x. x = t) (subscriptions (store r))) @ subscribers store cs t"
  by (simp add: subscribers_def)

lemma subscribers_Nil: "subscribers store [] t = []"
  by (simp add: subscribers_def)

lemma fold_attach_subscribers:
  "snd (fold (attach_component store) cs ls) t = snd ls t @ subscribers store cs t"
proof (induction cs arbitrary: ls)
  case Nil
  show ?case by (simp add: subscribers_Nil)
next
  case (Cons r cs)
  have "snd (fold (attach_component store) (r # cs) ls) t
        = snd (fold (attach_component store) cs (attach_component store r ls)) t" by simp
  also have "\<dots> = snd (attach_component store r ls) t @ subscribers store cs t"
    by (rule Cons.IH)
  also have "snd (attach_component store r ls) t
        = snd ls t @ map (\<lambda>_. Listen r) (filter (\<lambda>x. x = t) (subscriptions (store r)))"
    by (simp add: attach_component_def fold_subscribe)
  finally show ?case by (simp add: subscribers_Cons)
qed

lemma subscriptions_lookup_set_components:
  "subscriptions_lookup (set_components store m0 (Some cs)) t = subscribers store cs t"
  using fold_attach_subscribers [of store cs "(Map.empty, \<lambda>_. [])" t]
  by (simp add: set_components_def Let_def)

lemma trigger_event_subscribers:
  assumes "m = set_components store m0 (Some cs)" and "cs \<noteq> []"
    and "cls ev = BaseSimLogEvent \<or> cls ev = SimLogTimeout \<or> cls ev = SimLogInitialize \<or>
         cls ev = SimLogProcess \<and> single_reference ev = None"
    and "topic ev = Some t"
  shows "trigger_event m ev = Inr (ev\<lparr>callbacks := callbacks ev @ subscribers store cs t\<rparr>)"
proof -
  have n: "\<not> no_components m" using assms(1,2) by (simp add: no_components_def)
  have s: "subscriptions_lookup m t = subscribers store cs t"
    using assms(1) by (simp add: subscriptions_lookup_set_components)
  have a: "add_subscribers m ev = ev\<lparr>callbacks := callbacks ev @ subscribers store cs t\<rparr>"
    using s assms(4) by (simp add: add_subscribers_def)
  from assms(3) show ?thesis
  proof (elim disjE conjE)
    assume "cls ev = BaseSimLogEvent"
    with n a show ?thesis by (simp add: trigger_event_def)
  next
    assume "cls ev = SimLogTimeout"
    with n a show ?thesis by (simp add: trigger_event_def)
  next
    assume "cls ev = SimLogInitialize"
    with n a show ?thesis by (simp add: trigger_event_def)
  next
    assume "cls ev = SimLogProcess" "single_reference ev = None"
    with n a show ?thesis by (simp add: trigger_event_def)
  qed
qed

text \<open>
  C2, amended. For a broadcast event with a topic, \<^verbatim>\<open>trigger_event\<close> appends, when
  the event fires, the listeners that the manager recorded for the topic at the
  last assignment of \<^verbatim>\<open>components\<close>: those of the components subscribed to the
  topic in the store \<open>store\<close> that the setter read, in registration order. The
  components as they are when the event fires are not an argument of
  \<^verbatim>\<open>trigger_event\<close>; a changed subscription is delivered once \<^verbatim>\<open>components\<close> is
  assigned again (the theorem, with the changed store).
\<close>

theorem broadcast_uses_attached_subscriptions:
  assumes "m = set_components store m0 (Some cs)" and "cs \<noteq> []"
    and "cls ev = BaseSimLogEvent \<or> cls ev = SimLogTimeout \<or> cls ev = SimLogInitialize \<or>
         cls ev = SimLogProcess \<and> single_reference ev = None"
    and "topic ev = Some t"
  shows "trigger_event m ev = Inr (ev\<lparr>callbacks := callbacks ev @ subscribers store cs t\<rparr>)"
  using assms by (rule trigger_event_subscribers)

lemma late_env_facts:
  "env_manager late_env = Some (new_manager store_ab (Some [0, 1]))"
  "queue late_env = [(5, NORMAL, 0)]"
  "event_logging late_env"
  "comps late_env 0 = comp_a\<lparr>subscriptions := [DUMMY_EVENT]\<rparr>"
  "comps late_env (Suc 0) = comp_b"
  "events late_env 0 = ev0\<lparr>ev_value := Some PyNone\<rparr>"
  by (simp_all add: late_env_def set_subscriptions_def schedule_def env_ab_def env0_def
      store_ab_def)

lemma ev0_facts:
  "cls ev0 = BaseSimLogEvent" "topic ev0 = Some DUMMY_EVENT" "callbacks ev0 = []"
  "component_state ev0 = None" "parent ev0 = ParentNone"
  by (simp_all add: ev0_def new_event_def)

lemma subscribers_late:
  "subscribers (comps late_env) [0, 1] DUMMY_EVENT = [Listen 0, Listen 1]"
  by (simp add: subscribers_def late_env_facts comp_a_def comp_b_def)

lemma subscribers_ab: "subscribers store_ab [0, 1] DUMMY_EVENT = [Listen 1]"
  by (simp add: subscribers_def store_ab_def comp_a_def comp_b_def)

lemma trigger_late:
  "trigger_event (new_manager store_ab (Some [0, 1])) (events late_env 0)
   = Inr ((events late_env 0)\<lparr>callbacks := [Listen 1]\<rparr>)"
proof -
  have "trigger_event (new_manager store_ab (Some [0, 1])) (events late_env 0)
     = Inr ((events late_env 0)\<lparr>callbacks := callbacks (events late_env 0) @
              subscribers store_ab [0, 1] DUMMY_EVENT\<rparr>)"
    unfolding new_manager_def
    by (rule trigger_event_subscribers [OF refl]) (simp_all add: late_env_facts ev0_facts)
  then show ?thesis by (simp del: One_nat_def add: late_env_facts ev0_facts subscribers_ab)
qed

lemma log_late:
  "\<exists>m1. log_event (comps late_env) (new_manager store_ab (Some [0, 1])) (5, NORMAL, 0)
     ((events late_env 0)\<lparr>callbacks := [Listen 1]\<rparr>) = Inr m1"
  by (simp add: log_event_def late_env_facts(6) ev0_facts read_component_state_def
      resolve_single_reference_def resolve_value_def)

text \<open>
  C2, as stated, fails. In \<open>late_env\<close> A has subscribed to \<^verbatim>\<open>DUMMY_EVENT\<close> after
  the broadcast event was scheduled and before it fires, so the components subscribed
  when it fires are A and B; the callbacks that \<^verbatim>\<open>step\<close> attaches are B's alone.
\<close>

theorem late_binding_counterexample:
  "env_manager late_env = Some (new_manager store_ab (Some [0, 1])) \<and>
   queue late_env = [(5, NORMAL, 0)] \<and>
   topic (events late_env 0) = Some DUMMY_EVENT \<and>
   subscriptions (comps late_env 0) = [DUMMY_EVENT] \<and>
   subscribers (comps late_env) [0, 1] DUMMY_EVENT = [Listen 0, Listen 1] \<and>
   attached (notify (new_manager store_ab (Some [0, 1])) late_env) 0 = Inr [Listen 1]"
proof -
  obtain m1 where l: "log_event (comps late_env) (new_manager store_ab (Some [0, 1]))
     (5, NORMAL, 0) ((events late_env 0)\<lparr>callbacks := [Listen 1]\<rparr>) = Inr m1"
    using log_late by blast
  have "attached (notify (new_manager store_ab (Some [0, 1])) late_env) 0 = Inr [Listen 1]"
    by (simp del: One_nat_def add: notify_def late_env_facts(2,3) eseq_def trigger_late l attached_def)
  then show ?thesis
    by (simp del: One_nat_def add: late_env_facts ev0_facts subscribers_late)
qed

theorem broadcast_uses_attached_subscriptions_witness:
  "trigger_event (set_components (comps late_env) (new_manager store_ab (Some [0, 1])) (Some [0, 1]))
     (events late_env 0)
   = Inr ((events late_env 0)\<lparr>callbacks := [Listen 0, Listen 1]\<rparr>)"
proof -
  have c: "cls (events late_env 0) = BaseSimLogEvent \<or> cls (events late_env 0) = SimLogTimeout \<or>
      cls (events late_env 0) = SimLogInitialize \<or>
      cls (events late_env 0) = SimLogProcess \<and> single_reference (events late_env 0) = None"
    by (simp add: late_env_facts ev0_facts)
  have t: "topic (events late_env 0) = Some DUMMY_EVENT" by (simp add: late_env_facts ev0_facts)
  have k: "callbacks (events late_env 0) = []" by (simp add: late_env_facts ev0_facts)
  have n: "[0, 1] \<noteq> ([]::ref list)" by simp
  from broadcast_uses_attached_subscriptions [OF refl n c t, of "comps late_env"
      "new_manager store_ab (Some [0, 1])"] k subscribers_late
  show ?thesis by (simp del: One_nat_def)
qed

subsection \<open>Steps\<close>

lemma notify_keeps:
  assumes "notify m e = Inr e1"
  shows "queue e1 = queue e \<and> now e1 = now e \<and> eid e1 = eid e \<and>
         ok (events e1 i) = ok (events e i) \<and> defused (events e1 i) = defused (events e i)"
proof (cases "heap_head (queue e)")
  case None
  with assms show ?thesis by (simp add: notify_def)
next
  case (Some en)
  with assms obtain ev where t: "trigger_event m (events e (eseq en)) = Inr ev"
    by (auto simp: notify_def split: sum.splits)
  from trigger_event_keeps [OF t]
  have k: "ok ev = ok (events e (eseq en))" "defused ev = defused (events e (eseq en))" by simp_all
  let ?e1 = "e\<lparr>events := (events e)(eseq en := ev)\<rparr>"
  have "e1 = ?e1 \<or> (\<exists>m1. e1 = ?e1\<lparr>env_manager := Some m1\<rparr>)"
    using assms Some t by (auto simp: notify_def Let_def split: if_splits sum.splits)
  with k show ?thesis by (cases "i = eseq en") auto
qed

text \<open>What a normal return of \<^verbatim>\<open>step\<close> went through.\<close>

lemma step_InrD:
  assumes "step call e = Inr e'"
  shows "\<exists>m e1 en e2. env_manager e = Some m \<and> notify m e = Inr e1 \<and>
           pop_event e1 = Inr (en, e2) \<and>
           run_callbacks call (callbacks (events e2 (eseq en))) (eseq en)
             (e2\<lparr>events := (events e2)(eseq en := (events e2 (eseq en))\<lparr>callbacks := []\<rparr>)\<rparr>)
             = Inr e' \<and>
           (ok (events e' (eseq en)) \<or> defused (events e' (eseq en)))"
proof -
  from assms obtain m where m: "env_manager e = Some m"
    by (auto simp: step_def split: option.splits)
  with assms obtain e1 where n: "notify m e = Inr e1" and f: "fire call e1 = Inr e'"
    by (auto simp: step_def split: sum.splits)
  from f obtain en e2 where p: "pop_event e1 = Inr (en, e2)"
    by (auto simp: fire_def split: sum.splits)
  with f have "run_callbacks call (callbacks (events e2 (eseq en))) (eseq en)
             (e2\<lparr>events := (events e2)(eseq en := (events e2 (eseq en))\<lparr>callbacks := []\<rparr>)\<rparr>)
             = Inr e' \<and> (ok (events e' (eseq en)) \<or> defused (events e' (eseq en)))"
    by (auto simp: fire_def Let_def split: sum.splits if_splits)
  with m n p show ?thesis by blast
qed

lemma popped_eq:
  "env_manager e = Some m \<Longrightarrow> notify m e = Inr e1 \<Longrightarrow> pop_event e1 = Inr (en, e2) \<Longrightarrow>
   popped e = Some en"
  by (auto simp: popped_def pop_event_def heappop_def split: option.splits)







subsection \<open>The order of firing\<close>

lemma sched_inv_cong:
  "queue e' = queue e \<Longrightarrow> now e' = now e \<Longrightarrow> eid e' = eid e \<Longrightarrow> sched_inv e' tr = sched_inv e tr"
  by (simp add: sched_inv_def)

lemma schedules_only_schedule:
  "0 \<le> delay \<Longrightarrow> schedules_only e (schedule e ev priority delay)"
  by (simp add: schedules_only_def schedule_def etime_def eseq_def)

lemma schedules_only_refl: "schedules_only e e"
  by (simp add: schedules_only_def)

lemma sched_inv_schedules_only:
  assumes inv: "sched_inv e tr" and s: "schedules_only e e'"
  shows "sched_inv e' tr"
proof -
  define new where "new = drop (length (queue e)) (queue e')"
  from s have n: "now e' = now e" and i: "eid e \<le> eid e'"
    and t: "take (length (queue e)) (queue e') = queue e"
    and d: "distinct (map eseq new)"
    and a: "\<forall>x \<in> set new. now e \<le> etime x \<and> eid e \<le> eseq x \<and> eseq x < eid e'"
    unfolding schedules_only_def new_def list_all_iff by simp_all
  have q: "queue e' = queue e @ new"
    using append_take_drop_id [of "length (queue e)" "queue e'"] t by (simp add: new_def)
  from inv have 1: "\<forall>x \<in> set (queue e). now e \<le> etime x \<and> eseq x < eid e"
    and 2: "distinct (map eseq (queue e))"
    and 3: "\<forall>f \<in> set (map fst tr). etime f \<le> now e \<and> eseq f < eid e \<and>
         (\<forall>x \<in> set (queue e). etime f = etime x \<and> eprio f = eprio x \<longrightarrow> eseq f < eseq x)"
    and 4: "sorted_wrt fires_before (map fst tr)" and 5: "least_fired tr"
    by (auto simp: sched_inv_def)
  have q1: "\<forall>x \<in> set (queue e'). now e' \<le> etime x \<and> eseq x < eid e'"
    using 1 a n i q by fastforce
  have q2: "distinct (map eseq (queue e'))"
    using 2 d 1 a q by fastforce
  have q3: "\<forall>f \<in> set (map fst tr). etime f \<le> now e' \<and> eseq f < eid e' \<and>
         (\<forall>x \<in> set (queue e'). etime f = etime x \<and> eprio f = eprio x \<longrightarrow> eseq f < eseq x)"
    using 3 a n i q by fastforce
  from q1 q2 q3 4 5 show ?thesis unfolding sched_inv_def by blast
qed

lemma run_callbacks_inv:
  assumes cb: "\<forall>cb i e e'. call cb i e = Inr e' \<longrightarrow> schedules_only e e'"
  shows "sched_inv e tr \<Longrightarrow> run_callbacks call cbs i e = Inr e' \<Longrightarrow> sched_inv e' tr"
proof (induction cbs arbitrary: e)
  case Nil
  then show ?case by simp
next
  case (Cons c cbs)
  from Cons.prems(2) obtain e1 where 1: "invoke call c i e = Inr e1"
    and 2: "run_callbacks call cbs i e1 = Inr e'"
    by (auto split: sum.splits)
  from 1 have "call c i e = Inr e1" by (auto simp: invoke_def split: if_splits option.splits)
  with cb have "schedules_only e e1" by blast
  from sched_inv_schedules_only [OF Cons.prems(1) this] 2 show ?case by (rule Cons.IH)
qed

lemma popped_D:
  assumes "popped e = Some en"
  shows "\<exists>m e1. env_manager e = Some m \<and> notify m e = Inr e1 \<and>
           pop_event e1 = Inr (en, e1\<lparr>now := etime en, queue := remove1 en (queue e)\<rparr>)"
proof -
  from assms obtain m e1 where m: "env_manager e = Some m" and n: "notify m e = Inr e1"
    and h: "heap_head (queue e1) = Some en"
    by (auto simp: popped_def split: option.splits sum.splits)
  from notify_keeps [OF n] have "queue e1 = queue e" by simp
  with h have "pop_event e1 = Inr (en, e1\<lparr>now := etime en, queue := remove1 en (queue e)\<rparr>)"
    by (simp add: pop_event_def heappop_def)
  with m n show ?thesis by blast
qed

text \<open>The entry that \<^verbatim>\<open>step\<close> pops joins the trace, and a step that returns keeps the invariant.\<close>

lemma step_inv:
  assumes cb: "\<forall>cb i e e'. call cb i e = Inr e' \<longrightarrow> schedules_only e e'"
    and inv: "sched_inv e tr"
  shows "sorted_wrt fires_before (map fst (record_popped e tr)) \<and> least_fired (record_popped e tr) \<and>
         (\<forall>e'. step call e = Inr e' \<longrightarrow> sched_inv e' (record_popped e tr))"
proof (cases "popped e")
  case None
  have "step call e \<noteq> Inr e'" for e'
  proof
    assume "step call e = Inr e'"
    from step_InrD [OF this] None show False by (auto dest: popped_eq)
  qed
  with None inv show ?thesis by (simp add: record_popped_def sched_inv_def)
next
  case (Some en)
  from popped_D [OF Some] obtain m e1 where m: "env_manager e = Some m"
    and n: "notify m e = Inr e1"
    and p: "pop_event e1 = Inr (en, e1\<lparr>now := etime en, queue := remove1 en (queue e)\<rparr>)"
    (is "_ = Inr (en, ?e2)") by blast
  from notify_keeps [OF n] have "sched_inv e1 tr = sched_inv e tr" by (intro sched_inv_cong) simp_all
  with inv have "sched_inv e1 tr" by simp
  from sched_inv_pop [OF this p] have i2: "sched_inv ?e2 (tr @ [(en, remove1 en (queue e))])" by simp
  have r: "record_popped e tr = tr @ [(en, remove1 en (queue e))]"
    using Some by (simp add: record_popped_def)
  have "sched_inv e' (record_popped e tr)" if s: "step call e = Inr e'" for e'
  proof -
    from step_InrD [OF s] m n p
    have c: "run_callbacks call (callbacks (events ?e2 (eseq en))) (eseq en)
             (?e2\<lparr>events := (events ?e2)(eseq en := (events ?e2 (eseq en))\<lparr>callbacks := []\<rparr>)\<rparr>)
             = Inr e'" (is "run_callbacks _ _ _ ?e2c = _") by auto
    have "sched_inv ?e2c (tr @ [(en, remove1 en (queue e))]) = sched_inv ?e2 (tr @ [(en, remove1 en (queue e))])"
      by (intro sched_inv_cong) simp_all
    with i2 have "sched_inv ?e2c (tr @ [(en, remove1 en (queue e))])" by simp
    from run_callbacks_inv [OF cb this c] r show ?thesis by simp
  qed
  with i2 r show ?thesis by (simp add: sched_inv_def)
qed

lemma exec_inv:
  "\<forall>cb i e e'. call cb i e = Inr e' \<longrightarrow> schedules_only e e' \<Longrightarrow>
   sched_inv e tr \<Longrightarrow> \<forall>a \<in> set ops. nonneg_delay a \<Longrightarrow>
   sorted_wrt fires_before (map fst (exec call ops e tr)) \<and> least_fired (exec call ops e tr)"
proof (induction call ops e tr rule: exec.induct)
  case (1 call e tr)
  then show ?case by (simp add: sched_inv_def)
next
  case (2 call ev priority delay ops e tr)
  then show ?case by (simp add: sched_inv_schedule)
next
  case (3 call ops e tr)
  from step_inv [OF "3.prems"(1,2)]
  have g: "sorted_wrt fires_before (map fst (record_popped e tr)) \<and> least_fired (record_popped e tr)"
    and k: "\<forall>e'. step call e = Inr e' \<longrightarrow> sched_inv e' (record_popped e tr)" by blast+
  show ?case
  proof (cases "step call e")
    case (Inl x)
    with g show ?thesis by simp
  next
    case (Inr e')
    with k have "sched_inv e' (record_popped e tr)" by simp
    from "3.IH" [OF Inr "3.prems"(1) this] "3.prems"(3) Inr show ?thesis by simp
  qed
qed

lemma emit_schedules_only:
  "\<forall>cb i e e'. emit cb i e = Inr e' \<longrightarrow> schedules_only e e'"
proof (intro allI impI)
  fix cb i e e' assume a: "emit cb i e = Inr e'"
  show "schedules_only e e'"
  proof (cases cb)
    case (Listen r)
    with a have "\<exists>ev. e' = schedule e ev NORMAL 2"
      by (auto simp: emit_def create_event_def truthy_target_def truthy_timeout_def
          new_timeout_def Let_def)
    then show ?thesis by (auto intro: schedules_only_schedule)
  qed (use a in \<open>auto simp: emit_def schedules_only_refl\<close>)
qed

lemma exec_demo:
  "exec emit demo_ops env_ab [] =
     [((5, 0, 1), [(5, 1, 0)]), ((5, 1, 0), [(7, 1, 2)]), ((7, 1, 2), [(7, 1, 3)])]"
  by (simp del: One_nat_def add: demo_ops_def ev0v_def ev0_def env_ab_def env0_def mgr_ab_facts
      step_defs store_ab_def comp_a_def comp_b_def)

text \<open>
  C1. Start from an empty queue and run any sequence of outside \<^verbatim>\<open>schedule\<close> calls
  with delays that are not negative and of \<^verbatim>\<open>step\<close> calls, with callbacks whose
  only effect on the scheduler is to call \<^verbatim>\<open>schedule\<close> with delays that are not
  negative. Then the fire times of the entries that \<^verbatim>\<open>step\<close> pops never decrease;
  of two popped entries with the same fire time and the same priority, the one with
  the smaller sequence number was popped first; and every \<^verbatim>\<open>step\<close> popped the entry
  that was strictly least, in the lexicographic order of (fire time, priority,
  sequence number), among all entries pending at that moment, so the pending set
  alone determines what fires next.
\<close>

theorem firing_order:
  assumes "queue e = []" and "\<forall>a \<in> set ops. nonneg_delay a"
    and "\<forall>cb i e e'. call cb i e = Inr e' \<longrightarrow> schedules_only e e'"
  shows "sorted (map etime (fired call ops e)) \<and>
         (\<forall>i j. i < j \<and> j < length (fired call ops e) \<and>
                 etime (fired call ops e ! i) = etime (fired call ops e ! j) \<and>
                 eprio (fired call ops e ! i) = eprio (fired call ops e ! j) \<longrightarrow>
                 eseq (fired call ops e ! i) < eseq (fired call ops e ! j)) \<and>
         (\<forall>p \<in> set (exec call ops e []). \<forall>x \<in> set (snd p). fst p < x)"
proof -
  from exec_inv [OF assms(3) sched_inv_empty [OF assms(1)] assms(2)]
  have s: "sorted_wrt fires_before (fired call ops e)" and l: "least_fired (exec call ops e [])"
    by (simp_all add: fired_def)
  have a: "sorted (map etime (fired call ops e))"
    unfolding sorted_map using s
    by (rule sorted_wrt_mono_rel [rotated]) (simp add: fires_before_def)
  have b: "\<forall>i j. i < j \<and> j < length (fired call ops e) \<and>
                 etime (fired call ops e ! i) = etime (fired call ops e ! j) \<and>
                 eprio (fired call ops e ! i) = eprio (fired call ops e ! j) \<longrightarrow>
                 eseq (fired call ops e ! i) < eseq (fired call ops e ! j)"
    using s by (auto simp: sorted_wrt_iff_nth_less fires_before_def)
  from a b l show ?thesis by (simp add: least_fired_def)
qed

theorem firing_order_witness:
  "queue env_ab = [] \<and> list_all nonneg_delay demo_ops \<and>
   exec emit demo_ops env_ab [] =
     [((5, 0, 1), [(5, 1, 0)]), ((5, 1, 0), [(7, 1, 2)]), ((7, 1, 2), [(7, 1, 3)])] \<and>
   fired emit demo_ops env_ab = [(5, 0, 1), (5, 1, 0), (7, 1, 2)] \<and>
   sorted (map etime (fired emit demo_ops env_ab)) \<and>
   list_all (\<lambda>p. list_all (\<lambda>x. fst p < x) (snd p)) (exec emit demo_ops env_ab [])"
proof -
  have h1: "queue env_ab = []" by (simp add: env_ab_def env0_def)
  have h2: "\<forall>a \<in> set demo_ops. nonneg_delay a" by (simp add: demo_ops_def NORMAL_def URGENT_def)
  have f: "fired emit demo_ops env_ab = [(5, 0, 1), (5, 1, 0), (7, 1, 2)]"
    by (simp add: fired_def exec_demo)
  from firing_order [OF h1 h2 emit_schedules_only] h1 h2 f exec_demo
  show ?thesis by (simp add: list_all_iff)
qed

end
